theory Spec2Isabelle
  imports Main
begin

section \<open>VPC subnet placement (vpc-ref.ts)\<close>

text \<open>
  The interface \<open>IVpcSubnet\<close> of the source has the two data fields below. A subnet is
  also a construct of the tree; that part is not in the source file, so the helper
  \<open>subnetName\<close> imported from \<open>./util\<close> is a parameter of the model.
\<close>

record IVpcSubnet =
  availabilityZone :: string
  subnetId :: string

datatype SubnetType = Isolated | Private | Public

datatype SubnetQuery = Required | AllowNone

text \<open>
  \<open>VpcPlacementStrategy\<close>: both fields are optional in the source; \<open>undefined\<close> is
  \<open>None\<close>.
\<close>

record VpcPlacementStrategy =
  subnetsToUse :: "SubnetType option"
  subnetName :: "string option"

text \<open>The abstract fields of \<open>VpcNetworkBase\<close> that \<open>subnets\<close> reads.\<close>

record VpcNetworkBase =
  vpcId :: string
  publicSubnets :: "IVpcSubnet list"
  privateSubnets :: "IVpcSubnet list"
  isolatedSubnets :: "IVpcSubnet list"
  availabilityZones :: "string list"

text \<open>
  The three \<open>throw new Error(...)\<close> of \<open>subnets\<close>, one constructor for each, carrying
  what the message interpolates.
\<close>

datatype SelectionError =
    AtMostOneOfSubnetsToUseAndSubnetName
  | NoSubnetsWithName string
  | NoSubnetsMatch VpcPlacementStrategy

definition defaultPlacement :: VpcPlacementStrategy where
  "defaultPlacement = \<lparr>subnetsToUse = None, subnetName = None\<rparr>"

text \<open>The object literal indexed by \<open>placement.subnetsToUse\<close>.\<close>

fun subnetsOfType :: "VpcNetworkBase \<Rightarrow> SubnetType \<Rightarrow> IVpcSubnet list" where
  "subnetsOfType vpc Isolated = isolatedSubnets vpc"
| "subnetsOfType vpc Private = privateSubnets vpc"
| "subnetsOfType vpc Public = publicSubnets vpc"

text \<open>
  \<open>VpcNetworkBase.subnets(placement = {}, required = SubnetQuery.Required)\<close> with both
  arguments already defaulted.
\<close>

definition subnetsWith ::
  "(IVpcSubnet \<Rightarrow> string) \<Rightarrow> VpcNetworkBase \<Rightarrow> VpcPlacementStrategy \<Rightarrow> SubnetQuery
     \<Rightarrow> SelectionError + IVpcSubnet list" where
  "subnetsWith nameOf vpc placement required =
     (if subnetsToUse placement \<noteq> None \<and> subnetName placement \<noteq> None
      then Inl AtMostOneOfSubnetsToUseAndSubnetName
      else case subnetName placement of
        Some name \<Rightarrow>
          (let allSubnets = privateSubnets vpc @ publicSubnets vpc @ isolatedSubnets vpc;
               selectedSubnets = filter (\<lambda>s. nameOf s = name) allSubnets
           in if length selectedSubnets = 0 then Inl (NoSubnetsWithName name)
              else Inr selectedSubnets)
      | None \<Rightarrow>
          (case subnetsToUse placement of
             None \<Rightarrow> Inr (privateSubnets vpc)
           | Some t \<Rightarrow>
               (let selected = subnetsOfType vpc t
                in if required = Required \<and> length selected = 0
                   then Inl (NoSubnetsMatch placement)
                   else Inr selected)))"

text \<open>
  The method as callers see it: an omitted argument (\<open>None\<close>) takes the default of the
  signature.
\<close>

definition subnets ::
  "(IVpcSubnet \<Rightarrow> string) \<Rightarrow> VpcNetworkBase \<Rightarrow> VpcPlacementStrategy option
     \<Rightarrow> SubnetQuery option \<Rightarrow> SelectionError + IVpcSubnet list" where
  "subnets nameOf vpc placement required =
     subnetsWith nameOf vpc
       (case placement of None \<Rightarrow> defaultPlacement | Some p \<Rightarrow> p)
       (case required of None \<Rightarrow> Required | Some q \<Rightarrow> q)"

text \<open>Concrete networks used to exercise the theorems.\<close>

definition subnetA :: IVpcSubnet where
  "subnetA = \<lparr>availabilityZone = ''az-1'', subnetId = ''subnet-a''\<rparr>"

definition subnetB :: IVpcSubnet where
  "subnetB = \<lparr>availabilityZone = ''az-2'', subnetId = ''subnet-b''\<rparr>"

definition vpcPublicOnly :: VpcNetworkBase where
  "vpcPublicOnly = \<lparr>vpcId = ''vpc-1'', publicSubnets = [subnetA, subnetB],
     privateSubnets = [], isolatedSubnets = [], availabilityZones = [''az-1'', ''az-2'']\<rparr>"

definition byType :: "SubnetType \<Rightarrow> VpcPlacementStrategy" where
  "byType t = \<lparr>subnetsToUse = Some t, subnetName = None\<rparr>"

definition byName :: "string \<Rightarrow> VpcPlacementStrategy" where
  "byName n = \<lparr>subnetsToUse = None, subnetName = Some n\<rparr>"

section \<open>Documents and deferred values\<close>

text \<open>
  The expected templates under \<open>src/\<close> are JSON documents. A document is modelled as
  its JSON tree; an object keeps the order of its keys, as the files do.
\<close>

type_synonym path = "string list"

datatype json =
    JNull
  | JBool bool
  | JNumber int
  | JString string
  | JArray "json list"
  | JObject "(string \<times> json) list"

text \<open>
  The intrinsic expressions as the expected templates write them:
  \<open>{"Fn::Join": [delimiter, [parts]]}\<close>, \<open>{"Fn::Split": [delimiter, value]}\<close> and
  \<open>{"Fn::Select": [index, list]}\<close>.
\<close>

definition fnJoin :: "string \<Rightarrow> json list \<Rightarrow> json" where
  "fnJoin delimiter parts = JObject [(''Fn::Join'', JArray [JString delimiter, JArray parts])]"

definition fnSplit :: "string \<Rightarrow> json \<Rightarrow> json" where
  "fnSplit delimiter v = JObject [(''Fn::Split'', JArray [JString delimiter, v])]"

definition fnSelect :: "nat \<Rightarrow> json \<Rightarrow> json" where
  "fnSelect i v = JObject [(''Fn::Select'', JArray [JNumber (int i), v])]"

text \<open>
  Modelled from the spec: the Token of sections 3 and 4.2, whose code is not under
  \<open>src/\<close>. A Token records its producer node, its intended shape, and a resolver from
  the context to a value; the context is the assignment of logical ids to node paths.
\<close>

datatype shape = ScalarString | ListShape | MappingShape

record token =
  producer :: path
  shape :: shape
  resolver :: "(path \<Rightarrow> string) \<Rightarrow> json"

text \<open>
  Modelled from the spec: a property value before resolution (sections 3, 4.2 and 6; the
  code is not under \<open>src/\<close>). Tokens nest at any depth inside lists and mappings;
  \<open>PConcat\<close> is the string concatenation of its parts, and \<open>PSelectSplit d i v\<close> is
  component \<open>i\<close> of the composite string \<open>v\<close> split at the delimiter \<open>d\<close>.
\<close>

datatype pvalue =
    PString string
  | PNumber int
  | PBool bool
  | PToken token
  | PConcat "pvalue list"
  | PSelectSplit string nat pvalue
  | PList "pvalue list"
  | PMapping "(string \<times> pvalue) list"

text \<open>
  Modelled from the spec: Token resolution with the lowering of section 4.2 (the resolver
  is not under \<open>src/\<close>). Resolution recurses depth first; a concatenation becomes a join
  over the empty delimiter and its resolved parts, in order; a component of a split becomes
  a selection by index from a split at the delimiter. How a single Token resolves
  (its own expression, or an import when the producer lies in another boundary) is the
  parameter \<open>rt\<close>.
\<close>

fun resolve :: "(token \<Rightarrow> json) \<Rightarrow> pvalue \<Rightarrow> json" where
  "resolve rt (PString s) = JString s"
| "resolve rt (PNumber n) = JNumber n"
| "resolve rt (PBool b) = JBool b"
| "resolve rt (PToken t) = rt t"
| "resolve rt (PConcat parts) = fnJoin '''' (map (resolve rt) parts)"
| "resolve rt (PSelectSplit d i v) = fnSelect i (fnSplit d (resolve rt v))"
| "resolve rt (PList vs) = JArray (map (resolve rt) vs)"
| "resolve rt (PMapping kvs) = JObject (map (\<lambda>(k, v). (k, resolve rt v)) kvs)"

text \<open>
  Modelled from the spec: the first \<open>n\<close> components of a composite deferred string
  (section 6; not under \<open>src/\<close>).
\<close>

definition splitComponents :: "string \<Rightarrow> nat \<Rightarrow> pvalue \<Rightarrow> pvalue list" where
  "splitComponents d n v = map (\<lambda>i. PSelectSplit d i v) [0..<n]"

text \<open>
  The values that occur inside a value, itself included, at any depth; and the JSON
  terms that occur inside a JSON term, itself included.
\<close>

fun subvalues :: "pvalue \<Rightarrow> pvalue list" where
  "subvalues (PConcat parts) = PConcat parts # concat (map subvalues parts)"
| "subvalues (PSelectSplit d i v) = PSelectSplit d i v # subvalues v"
| "subvalues (PList vs) = PList vs # concat (map subvalues vs)"
| "subvalues (PMapping kvs) = PMapping kvs # concat (map (\<lambda>(k, v). subvalues v) kvs)"
| "subvalues v = [v]"

fun subterms :: "json \<Rightarrow> json list" where
  "subterms (JArray xs) = JArray xs # concat (map subterms xs)"
| "subterms (JObject kvs) = JObject kvs # concat (map (\<lambda>(k, v). subterms v) kvs)"
| "subterms j = [j]"


text \<open>
  The Token kinds that occur in the expected templates: a reference to a node
  (\<open>{"Ref": id}\<close>), an attribute of a node (\<open>{"Fn::GetAtt": [id, attribute]}\<close>),
  and a reference to a pseudo parameter of a boundary, which has a fixed name instead of a
  logical id (\<open>{"Ref": "AWS::Partition"}\<close>) and whose producer is the boundary.
\<close>

definition refToken :: "path \<Rightarrow> token" where
  "refToken p =
     \<lparr>producer = p, shape = ScalarString,
      resolver = (\<lambda>ids. JObject [(''Ref'', JString (ids p))])\<rparr>"

definition attToken :: "path \<Rightarrow> string \<Rightarrow> token" where
  "attToken p a =
     \<lparr>producer = p, shape = ScalarString,
      resolver = (\<lambda>ids. JObject [(''Fn::GetAtt'', JArray [JString (ids p), JString a])])\<rparr>"


section \<open>Logical id allocator\<close>

text \<open>
  Modelled from the spec: the fatal errors of section 7 that synthesis can raise (the
  engine is not under \<open>src/\<close>). The cycle error carries the cycle path, the allocation
  error the path and the colliding id, the lookup error the node without the ancestor.
\<close>

datatype 'a SynthesisError =
    CyclicDependencyError "'a list"
  | AllocationError 'a string
  | NotFoundError 'a

text \<open>
  Modelled from the spec: the identifier alphabet (section 4.3; the allocator is not
  under \<open>src/\<close>). The ids of the expected templates are alphanumeric: the segment
  \<open>Custom::CDKBucketDeployment...\<close> of a path appears in its ids without the colons.
\<close>

definition validIdChar :: "char \<Rightarrow> bool" where
  "validIdChar c =
     (c \<in> set ''ABCDEFGHIJKLMNOPQRSTUVWXYZabcdefghijklmnopqrstuvwxyz0123456789'')"

text \<open>
  Modelled from the spec: the human-readable prefix, the path segments concatenated
  with the invalid characters stripped (section 4.3; not under \<open>src/\<close>).
\<close>

definition humanPrefix :: "path \<Rightarrow> string" where
  "humanPrefix p = concat (map (filter validIdChar) p)"

text \<open>
  Modelled from the spec: the hash suffix has a fixed length (section 4.3); in the
  expected templates it has eight characters. The hash function itself is not under
  \<open>src/\<close> and the spec does not fix it, so it is the parameter \<open>h\<close>, a function of the
  full path, and \<open>fixedLength h\<close> is what the spec asks of it.
\<close>

definition hashLength :: nat where
  "hashLength = 8"

definition fixedLength :: "(path \<Rightarrow> string) \<Rightarrow> bool" where
  "fixedLength h = (\<forall>p. length (h p) = hashLength)"

text \<open>
  Modelled from the spec: the id of a path, the prefix followed by the hash of the full
  path (section 4.3; not under \<open>src/\<close>).
\<close>

definition makeId :: "(path \<Rightarrow> string) \<Rightarrow> path \<Rightarrow> string" where
  "makeId h p = humanPrefix p @ h p"

text \<open>
  Modelled from the spec: \<open>allocate(path) -> id\<close> with its memo (section 4.3; not under
  \<open>src/\<close>). The table holds the ids allocated so far. A path already in the table gets
  its memoized id; a new path whose id is already taken by another path is the fatal
  \<open>AllocationError\<close>.
\<close>

type_synonym idTable = "(path \<times> string) list"

definition allocate ::
  "(path \<Rightarrow> string) \<Rightarrow> idTable \<Rightarrow> path \<Rightarrow> path SynthesisError + string \<times> idTable" where
  "allocate h table p =
     (case map_of table p of
        Some i \<Rightarrow> Inr (i, table)
      | None \<Rightarrow>
          (let i = makeId h p
           in if i \<in> set (map snd table) then Inl (AllocationError p i)
              else Inr (i, table @ [(p, i)])))"

text \<open>
  Modelled from the spec: the allocations of one synthesis run, one path after the other,
  stopping at the first error (sections 4.3 and 7; not under \<open>src/\<close>).
\<close>

fun allocateAll ::
  "(path \<Rightarrow> string) \<Rightarrow> idTable \<Rightarrow> path list \<Rightarrow> path SynthesisError + idTable" where
  "allocateAll h table [] = Inr table"
| "allocateAll h table (p # ps) =
     (case allocate h table p of
        Inl e \<Rightarrow> Inl e
      | Inr (i, table') \<Rightarrow> allocateAll h table' ps)"

text \<open>The invariant of the memo table: no path and no id twice, every id that of its path.\<close>

definition tableOk :: "(path \<Rightarrow> string) \<Rightarrow> idTable \<Rightarrow> bool" where
  "tableOk h table = (distinct (map fst table) \<and> distinct (map snd table)
     \<and> list_all (\<lambda>e. snd e = makeId h (fst e)) table)"

section \<open>Dependency graph\<close>

text \<open>
  Modelled from the spec: the dependency graph of sections 3 and 4.4 (not under
  \<open>src/\<close>): the nodes in declaration order and the edges \<open>(from, to)\<close>, each meaning that
  \<open>from\<close> is emitted after \<open>to\<close>.
\<close>

record 'a DependencyGraph =
  declared :: "'a list"
  edges :: "('a \<times> 'a) list"

text \<open>
  Modelled from the spec: \<open>addDependency(from, to)\<close>, a no-op on an edge already present
  (section 4.4; not under \<open>src/\<close>). An endpoint that is not yet a node of the graph
  becomes one, after the nodes declared so far.
\<close>

definition declareNode :: "'a DependencyGraph \<Rightarrow> 'a \<Rightarrow> 'a DependencyGraph" where
  "declareNode g n = (if n \<in> set (declared g) then g else g\<lparr>declared := declared g @ [n]\<rparr>)"

definition addDependency :: "'a DependencyGraph \<Rightarrow> 'a \<Rightarrow> 'a \<Rightarrow> 'a DependencyGraph" where
  "addDependency g from to =
     (let g' = declareNode (declareNode g from) to
      in if (from, to) \<in> set (edges g') then g' else g'\<lparr>edges := edges g' @ [(from, to)]\<rparr>)"

text \<open>
  Modelled from the spec: the nodes a node depends on, in declaration order, which is
  the tie-break of section 4.4 (not under \<open>src/\<close>).
\<close>

definition dependenciesOf :: "'a DependencyGraph \<Rightarrow> 'a \<Rightarrow> 'a list" where
  "dependenciesOf g n = filter (\<lambda>t. (n, t) \<in> set (edges g)) (declared g)"

text \<open>
  Modelled from the spec: the cycle reported when the traversal meets \<open>n\<close> again on its
  recursion stack (section 4.4; not under \<open>src/\<close>). The stack has its newest node first;
  the cycle is \<open>n\<close> followed by the nodes entered after it, oldest first.
\<close>

definition cyclePath :: "'a list \<Rightarrow> 'a \<Rightarrow> 'a list" where
  "cyclePath stack n = n # rev (takeWhile (\<lambda>x. x \<noteq> n) stack)"

text \<open>
  Modelled from the spec: the depth-first traversal with a recursion stack of section
  4.4 (not under \<open>src/\<close>). \<open>visit\<close> emits the dependencies of a node before the node;
  a node found on the stack is the fatal \<open>CyclicDependencyError\<close>; a node already
  emitted, or not declared in the graph, adds nothing. \<open>visitAll\<close> visits a list of nodes
  from left to right and stops at the first error.
\<close>

function visit ::
    "'a DependencyGraph \<Rightarrow> 'a list \<Rightarrow> 'a list \<Rightarrow> 'a \<Rightarrow> 'a SynthesisError + 'a list"
  and visitAll ::
    "'a DependencyGraph \<Rightarrow> 'a list \<Rightarrow> 'a list \<Rightarrow> 'a list \<Rightarrow> 'a SynthesisError + 'a list"
where
  "visit g stack emitted n =
     (if n \<in> set emitted \<or> n \<notin> set (declared g) then Inr emitted
      else if n \<in> set stack then Inl (CyclicDependencyError (cyclePath stack n))
      else case visitAll g (n # stack) emitted (dependenciesOf g n) of
             Inl e \<Rightarrow> Inl e
           | Inr emitted' \<Rightarrow> Inr (emitted' @ [n]))"
| "visitAll g stack emitted [] = Inr emitted"
| "visitAll g stack emitted (n # ns) =
     (case visit g stack emitted n of
        Inl e \<Rightarrow> Inl e
      | Inr emitted' \<Rightarrow> visitAll g stack emitted' ns)"
  by pat_completeness auto
termination
proof (relation "inv_image (less_than <*lex*> less_than)
    (\<lambda>x. case x of
       Inl (g, stack, emitted, n) \<Rightarrow> (card (set (declared g) - set stack), 0)
     | Inr (g, stack, emitted, ns) \<Rightarrow> (card (set (declared g) - set stack), Suc (length ns)))",
    goal_cases)
  case 1
  show ?case by (intro wf_inv_image wf_lex_prod wf_less_than)
next
  case (2 g stack emitted n)
  then have "n \<in> set (declared g) - set stack" by simp
  then have "card (set (declared g) - set (n # stack)) < card (set (declared g) - set stack)"
    by (intro psubset_card_mono) auto
  then show ?case by simp
next
  case 3
  show ?case by simp
next
  case 4
  show ?case by simp
qed

text \<open>
  Modelled from the spec: the cycle check and the emission order of section 4.4 (not
  under \<open>src/\<close>): the traversal started from every declared node, in declaration order.
  Synthesis allocates the logical ids in this order; the records of a document stand in
  declaration order, as the expected templates have them.
\<close>

definition emissionOrder :: "'a DependencyGraph \<Rightarrow> 'a SynthesisError + 'a list" where
  "emissionOrder g = visitAll g [] [] (declared g)"



definition precedes :: "'a list \<Rightarrow> 'a \<Rightarrow> 'a \<Rightarrow> bool" where
  "precedes order t n = (t \<in> set (takeWhile (\<lambda>x. x \<noteq> n) order))"

definition respectsEdges :: "'a DependencyGraph \<Rightarrow> 'a list \<Rightarrow> bool" where
  "respectsEdges g order = list_all (\<lambda>e. precedes order (snd e) (fst e)) (edges g)"

definition wellFormed :: "'a DependencyGraph \<Rightarrow> bool" where
  "wellFormed g =
     list_all (\<lambda>e. fst e \<in> set (declared g) \<and> snd e \<in> set (declared g)) (edges g)"

text \<open>
  The invariant of the emitted list during the traversal: no node twice, only declared
  nodes, and every dependency of an emitted node before it.
\<close>

definition ordered :: "'a DependencyGraph \<Rightarrow> 'a list \<Rightarrow> bool" where
  "ordered g D = (distinct D \<and> set D \<subseteq> set (declared g) \<and>
     (\<forall>n \<in> set D. \<forall>t \<in> set (dependenciesOf g n). precedes D t n))"


section \<open>Template assembler\<close>




















section \<open>The expected template of the source\<close>

text \<open>
  The expected template \<open>src/unnamed/part_000\<close> of the bucket-deployment test, as the
  tree that produces it and as the JSON of the file. The boundary is the root, so the
  path of a node is its path below the boundary. The hash suffixes are read off the
  logical ids of the file, by node path; any other path gets a suffix of zeros.
\<close>

definition handlerName :: string where
  "handlerName = ''Custom::CDKBucketDeployment8693BB64968944B69AAFB0CC9EB8756C''"

definition expectedHashes :: "(path \<times> string) list" where
  "expectedHashes =
     [([''Destination''], ''920A3C57''),
      ([''Destination'', ''Policy''], ''7982387E''),
      ([''DeployMe'', ''CustomResource''], ''4455EE35''),
      ([''DeployMe'', ''Asset'', ''S3Bucket''], ''646A811D''),
      ([''DeployMe'', ''Asset'', ''S3VersionKey''], ''5A12D51F''),
      ([handlerName, ''ServiceRole''], ''89A01265''),
      ([handlerName, ''ServiceRole'', ''DefaultPolicy''], ''88902FDF''),
      ([handlerName], ''81C01536''),
      ([handlerName, ''Code'', ''S3Bucket''], ''6E5FB2B7''),
      ([handlerName, ''Code'', ''S3VersionKey''], ''426156C0''),
      ([''Destination2''], ''81A09BDF''),
      ([''DeployWithPrefix'', ''CustomResource''], ''9CF7C694''),
      ([''DeployWithPrefix'', ''Asset'', ''S3Bucket''], ''8B33F071''),
      ([''DeployWithPrefix'', ''Asset'', ''S3VersionKey''], ''45049418'')]"

definition expectedHash :: "path \<Rightarrow> string" where
  "expectedHash p = (case map_of expectedHashes p of Some s \<Rightarrow> s | None \<Rightarrow> ''00000000'')"

text \<open>
  The policy document of the bucket policy (lines 17 to 40 of the file) and its
  \<open>Resource\<close> (lines 23 to 36).
\<close>

definition policyDocument :: pvalue where
  "policyDocument =
     PMapping
       [(''Statement'', PList [PMapping
          [(''Action'', PString ''s3:GetObject''),
           (''Effect'', PString ''Allow''),
           (''Principal'', PString ''*''),
           (''Resource'',
              PConcat [PToken (attToken [''Destination''] ''Arn''), PString ''/*''])]]),
        (''Version'', PString ''2012-10-17'')]"

definition expectedPolicyResource :: json where
  "expectedPolicyResource =
     JObject
       [(''Fn::Join'', JArray
           [JString '''',
            JArray
              [JObject
                 [(''Fn::GetAtt'', JArray [JString ''Destination920A3C57'', JString ''Arn''])],
               JString ''/*'']])]"

text \<open>
  The property \<open>SourceObjectKey\<close> of \<open>DeployMeCustomResource4455EE35\<close> (lines 55 to 87
  of the file).
\<close>

definition sourceObjectKey :: pvalue where
  "sourceObjectKey =
     PConcat (splitComponents ''||'' 2
       (PToken (refToken [''DeployMe'', ''Asset'', ''S3VersionKey''])))"

definition expectedSourceObjectKey :: json where
  "expectedSourceObjectKey =
     JObject
       [(''Fn::Join'', JArray
           [JString '''',
            JArray
              [JObject
                 [(''Fn::Select'', JArray
                     [JNumber 0,
                      JObject
                        [(''Fn::Split'', JArray
                            [JString ''||'',
                             JObject
                               [(''Ref'', JString ''DeployMeAssetS3VersionKey5A12D51F'')]])]])],
               JObject
                 [(''Fn::Select'', JArray
                     [JNumber 1,
                      JObject
                        [(''Fn::Split'', JArray
                            [JString ''||'',
                             JObject
                               [(''Ref'', JString ''DeployMeAssetS3VersionKey5A12D51F'')]])]])]]])]"
























section \<open>Theorems: subnet placement\<close>

text \<open>
  C1. Selecting by type (\<open>subnetsToUse\<close> supplied, \<open>subnetName\<close> absent): the operation
  raises an error exactly when the query mode is \<open>Required\<close> and the list of the selected
  type is empty, and the error is then the empty-selection one; in every other case it
  returns that list, so with \<open>AllowNone\<close> and an empty list it returns the empty list.
  An omitted query mode is \<open>Required\<close>.
\<close>

theorem subnets_by_type:
  assumes "subnetsToUse placement = Some t" and "subnetName placement = None"
  shows "(isl (subnets nameOf vpc (Some placement) (Some required))
            = (required = Required \<and> subnetsOfType vpc t = []))
       \<and> (subnets nameOf vpc (Some placement) (Some required) =
            (if required = Required \<and> subnetsOfType vpc t = []
             then Inl (NoSubnetsMatch placement) else Inr (subnetsOfType vpc t)))
       \<and> (subnetsOfType vpc t = [] \<longrightarrow>
            subnets nameOf vpc (Some placement) (Some AllowNone) = Inr [])
       \<and> subnets nameOf vpc (Some placement) None
            = subnets nameOf vpc (Some placement) (Some Required)"
  using assms by (auto simp: subnets_def subnetsWith_def Let_def)

theorem subnets_by_type_witness:
  "subnets subnetId vpcPublicOnly (Some (byType Private)) (Some Required)
     = Inl (NoSubnetsMatch (byType Private))
   \<and> subnets subnetId vpcPublicOnly (Some (byType Private)) (Some AllowNone) = Inr []
   \<and> subnets subnetId vpcPublicOnly (Some (byType Public)) (Some Required)
     = Inr [subnetA, subnetB]"
proof -
  have a: "subnetsToUse (byType Private) = Some Private" "subnetName (byType Private) = None"
    and b: "subnetsToUse (byType Public) = Some Public" "subnetName (byType Public) = None"
    by (simp_all add: byType_def)
  from subnets_by_type [OF a, of subnetId vpcPublicOnly Required]
       subnets_by_type [OF a, of subnetId vpcPublicOnly AllowNone]
       subnets_by_type [OF b, of subnetId vpcPublicOnly Required]
  show ?thesis by (simp add: vpcPublicOnly_def)
qed

text \<open>
  C2. A placement that supplies both \<open>subnetsToUse\<close> and \<open>subnetName\<close> raises the
  over-constrained-query error for every network and every query mode; no list is
  returned.
\<close>

theorem subnets_both_supplied:
  assumes "subnetsToUse placement = Some t" and "subnetName placement = Some name"
  shows "subnets nameOf vpc (Some placement) required = Inl AtMostOneOfSubnetsToUseAndSubnetName
       \<and> (\<forall>xs. subnets nameOf vpc (Some placement) required \<noteq> Inr xs)"
  using assms by (simp add: subnets_def subnetsWith_def)

theorem subnets_both_supplied_witness:
  "subnets subnetId vpcPublicOnly
     (Some \<lparr>subnetsToUse = Some Public, subnetName = Some ''subnet-a''\<rparr>) (Some AllowNone)
   = Inl AtMostOneOfSubnetsToUseAndSubnetName"
  using subnets_both_supplied
    [of "\<lparr>subnetsToUse = Some Public, subnetName = Some ''subnet-a''\<rparr>" Public "''subnet-a''"
        subnetId vpcPublicOnly "Some AllowNone"]
  by simp

text \<open>
  C9. Selecting by name: when no subnet of any of the three lists has the name, the
  operation raises an error whatever the query mode is (also \<open>AllowNone\<close>): the
  no-such-name error when \<open>subnetsToUse\<close> is absent, the over-constrained one otherwise.
  So a by-name query never returns the empty list.
\<close>

theorem subnets_by_name_never_empty:
  assumes "subnetName placement = Some name"
  shows "(filter (\<lambda>s. nameOf s = name)
            (privateSubnets vpc @ publicSubnets vpc @ isolatedSubnets vpc) = []
          \<longrightarrow> subnets nameOf vpc (Some placement) required =
                (if subnetsToUse placement = None then Inl (NoSubnetsWithName name)
                 else Inl AtMostOneOfSubnetsToUseAndSubnetName))
       \<and> subnets nameOf vpc (Some placement) required \<noteq> Inr []"
  using assms by (auto simp: subnets_def subnetsWith_def Let_def split: option.splits)

theorem subnets_by_name_never_empty_witness:
  "subnets subnetId vpcPublicOnly (Some (byName ''subnet-z'')) (Some AllowNone)
     = Inl (NoSubnetsWithName ''subnet-z'')"
proof -
  have a: "subnetName (byName ''subnet-z'') = Some ''subnet-z''"
    by (simp add: byName_def)
  from subnets_by_name_never_empty [OF a, of subnetId vpcPublicOnly "Some AllowNone"]
  show ?thesis
    by (simp add: vpcPublicOnly_def subnetA_def subnetB_def byName_def)
qed

text \<open>
  C10. With no placement constraint (the placement omitted, or given with neither field)
  the operation returns exactly the private subnets, with no emptiness check: also when
  the query mode is \<open>Required\<close> and the private list is empty.
\<close>

theorem subnets_unconstrained:
  assumes "subnetsToUse placement = None" and "subnetName placement = None"
  shows "subnets nameOf vpc (Some placement) required = Inr (privateSubnets vpc)
       \<and> subnets nameOf vpc None required = Inr (privateSubnets vpc)
       \<and> (privateSubnets vpc = [] \<longrightarrow>
            subnets nameOf vpc (Some placement) (Some Required) = Inr [])"
  using assms by (simp add: subnets_def subnetsWith_def defaultPlacement_def)

theorem subnets_unconstrained_witness:
  "subnets subnetId vpcPublicOnly (Some defaultPlacement) (Some Required) = Inr []"
proof -
  have a: "subnetsToUse defaultPlacement = None" "subnetName defaultPlacement = None"
    by (simp_all add: defaultPlacement_def)
  from subnets_unconstrained [OF a, of subnetId vpcPublicOnly "Some Required"]
  show ?thesis by (simp add: vpcPublicOnly_def)
qed

section \<open>Lemmas: the traversal\<close>

lemma ordered_Nil: "ordered g []"
  by (simp add: ordered_def)

lemma precedes_append_old: "n \<in> set D \<Longrightarrow> precedes (D @ E) t n = precedes D t n"
  by (simp add: precedes_def takeWhile_append1)

lemma precedes_append_new: "n \<notin> set D \<Longrightarrow> precedes (D @ [n]) t n = (t \<in> set D)"
  unfolding precedes_def by (induction D) auto

lemma ordered_snoc:
  assumes "ordered g D" and "n \<notin> set D" and "n \<in> set (declared g)"
    and "set (dependenciesOf g n) \<subseteq> set D"
  shows "ordered g (D @ [n])"
  using assms unfolding ordered_def
  by (auto simp: precedes_append_old precedes_append_new)

text \<open>
  A successful visit keeps the invariant, only appends, never emits a node of the stack,
  and emits the visited node.
\<close>

lemma visit_ordered:
  "visit g S D n = Inr D' \<Longrightarrow> ordered g D \<Longrightarrow> set D \<inter> set S = {} \<Longrightarrow>
     ordered g D' \<and> set D \<subseteq> set D' \<and> set D' \<inter> set S = {}
       \<and> (n \<in> set (declared g) \<longrightarrow> n \<in> set D')"
  "visitAll g S D ns = Inr D' \<Longrightarrow> ordered g D \<Longrightarrow> set D \<inter> set S = {} \<Longrightarrow>
     ordered g D' \<and> set D \<subseteq> set D' \<and> set D' \<inter> set S = {}
       \<and> (\<forall>n \<in> set ns. n \<in> set (declared g) \<longrightarrow> n \<in> set D')"
proof (induction g S D n and g S D ns arbitrary: D' and D' rule: visit_visitAll.induct)
  case (1 g S D n)
  show ?case
  proof (cases "n \<in> set D \<or> n \<notin> set (declared g)")
    case True
    with "1.prems" show ?thesis by auto
  next
    case False
    show ?thesis
    proof (cases "n \<in> set S")
      case True
      with False "1.prems" show ?thesis by simp
    next
      case nS: False
      from False nS "1.prems"(1) obtain D'' where
        va: "visitAll g (n # S) D (dependenciesOf g n) = Inr D''" and D': "D' = D'' @ [n]"
        by (auto split: sum.splits)
      from False "1.prems"(3) have disj: "set D \<inter> set (n # S) = {}" by auto
      from "1.IH" [OF False nS va "1.prems"(2) disj]
      have o: "ordered g D''" and sub: "set D \<subseteq> set D''"
        and d: "set D'' \<inter> set (n # S) = {}"
        and deps: "\<forall>t \<in> set (dependenciesOf g n). t \<in> set (declared g) \<longrightarrow> t \<in> set D''"
        by auto
      have "set (dependenciesOf g n) \<subseteq> set D''"
        using deps by (auto simp: dependenciesOf_def)
      moreover from d have "n \<notin> set D''" by auto
      ultimately have "ordered g (D'' @ [n])"
        using o False by (intro ordered_snoc) auto
      with sub d nS show ?thesis by (auto simp: D')
    qed
  qed
next
  case (2 g S D)
  then show ?case by simp
next
  case (3 g S D n ns)
  from "3.prems"(1) obtain D1 where
    v: "visit g S D n = Inr D1" and va: "visitAll g S D1 ns = Inr D'"
    by (auto split: sum.splits)
  from "3.IH"(1) [OF v "3.prems"(2,3)]
  have o1: "ordered g D1" and s1: "set D \<subseteq> set D1" and d1: "set D1 \<inter> set S = {}"
    and n1: "n \<in> set (declared g) \<longrightarrow> n \<in> set D1"
    by auto
  from "3.IH"(2) [OF v va o1 d1]
  have "ordered g D'" and s2: "set D1 \<subseteq> set D'" and "set D' \<inter> set S = {}"
    and "\<forall>m \<in> set ns. m \<in> set (declared g) \<longrightarrow> m \<in> set D'"
    by auto
  with s1 n1 show ?case by auto
qed









lemma ordered_respectsEdges:
  assumes "ordered g D" and "set (declared g) \<subseteq> set D" and "wellFormed g"
  shows "respectsEdges g D"
  unfolding respectsEdges_def list_all_iff
proof
  fix e assume e: "e \<in> set (edges g)"
  with assms(3) have "fst e \<in> set (declared g)" "snd e \<in> set (declared g)"
    by (auto simp: wellFormed_def list_all_iff)
  with e have "snd e \<in> set (dependenciesOf g (fst e))" by (simp add: dependenciesOf_def)
  moreover from \<open>fst e \<in> set (declared g)\<close> assms(2) have "fst e \<in> set D" by auto
  ultimately show "precedes D (snd e) (fst e)" using assms(1) by (auto simp: ordered_def)
qed

lemma emissionOrder_Inr:
  assumes "emissionOrder g = Inr order"
  shows "ordered g order \<and> set order = set (declared g)"
proof -
  from assms have "visitAll g [] [] (declared g) = Inr order" by (simp add: emissionOrder_def)
  from visit_ordered(2) [OF this ordered_Nil] show ?thesis
    by (auto simp: ordered_def)
qed




lemma emissionOrder_topological:
  assumes "emissionOrder g = Inr order" and "wellFormed g"
  shows "distinct order \<and> set order = set (declared g) \<and> respectsEdges g order"
proof -
  from emissionOrder_Inr [OF assms(1)]
  have o: "ordered g order" and s: "set order = set (declared g)" by auto
  from s have sub: "set (declared g) \<subseteq> set order" by simp
  from o have "distinct order" by (simp add: ordered_def)
  with s ordered_respectsEdges [OF o sub assms(2)] show ?thesis by simp
qed

section \<open>Lemmas: the allocator\<close>

lemma tableOk_Nil: "tableOk h []"
  by (simp add: tableOk_def)

lemma allocate_memo:
  assumes "allocate h table p = Inr (i, table')"
  shows "allocate h table' p = Inr (i, table')"
proof (cases "map_of table p")
  case None
  with assms have "table' = table @ [(p, i)]"
    by (auto simp: allocate_def Let_def split: if_splits)
  moreover from None have "map_of (table @ [(p, i)]) p = Some i"
    by (simp add: map_add_def)
  ultimately show ?thesis by (simp add: allocate_def del: map_of_append)
next
  case (Some j)
  with assms show ?thesis by (auto simp: allocate_def)
qed

lemma allocate_ok:
  assumes "allocate h table p = Inr (i, table')" and "tableOk h table"
  shows "tableOk h table' \<and> i = makeId h p \<and> (p, i) \<in> set table' \<and> set table \<subseteq> set table'
    \<and> fst ` set table' = insert p (fst ` set table)"
proof (cases "map_of table p")
  case None
  with assms(1) have i: "i = makeId h p" and n: "makeId h p \<notin> snd ` set table"
    and t: "table' = table @ [(p, makeId h p)]"
    by (auto simp: allocate_def Let_def split: if_splits)
  from None have "p \<notin> fst ` set table" by (simp add: map_of_eq_None_iff)
  with assms(2) n show ?thesis
    by (auto simp: tableOk_def i t)
next
  case (Some j)
  with assms(1) have ij: "i = j" and t: "table' = table"
    by (auto simp: allocate_def)
  from Some have m: "(p, j) \<in> set table" by (rule map_of_SomeD)
  with assms(2) have "j = makeId h p" by (auto simp: tableOk_def list_all_iff)
  with m assms(2) show ?thesis by (auto simp: ij t intro: rev_image_eqI)
qed

lemma allocateAll_ok:
  "allocateAll h table ps = Inr table' \<Longrightarrow> tableOk h table \<Longrightarrow>
     tableOk h table' \<and> set table \<subseteq> set table' \<and> fst ` set table' = fst ` set table \<union> set ps"
proof (induction ps arbitrary: table)
  case Nil
  then show ?case by simp
next
  case (Cons p ps)
  from Cons.prems(1) obtain i t1 where a: "allocate h table p = Inr (i, t1)"
    and r: "allocateAll h t1 ps = Inr table'"
    by (auto split: sum.splits)
  from allocate_ok [OF a Cons.prems(2)] have ok1: "tableOk h t1" and s1: "set table \<subseteq> set t1"
    and f1: "fst ` set t1 = insert p (fst ` set table)" by auto
  from Cons.IH [OF r ok1] s1 f1 show ?case by auto
qed

lemma allocateAll_error:
  "allocateAll h table ps = Inl e \<Longrightarrow> \<exists>r i. e = AllocationError r i"
proof (induction ps arbitrary: table)
  case Nil
  then show ?case by simp
next
  case (Cons p ps)
  show ?case
  proof (cases "allocate h table p")
    case (Inl e')
    with Cons.prems have "e' = e" by simp
    with Inl show ?thesis
      by (auto simp: allocate_def Let_def split: option.splits if_splits)
  next
    case (Inr r)
    with Cons.prems Cons.IH show ?thesis by (cases r) auto
  qed
qed

lemma tableOk_lookup:
  assumes "tableOk h table" and "p \<in> fst ` set table"
  shows "map_of table p = Some (makeId h p)"
proof -
  from assms(2) obtain i where m: "(p, i) \<in> set table" by auto
  with assms(1) have "i = makeId h p" by (auto simp: tableOk_def list_all_iff)
  with m assms(1) show ?thesis by (simp add: tableOk_def)
qed

lemma tableOk_unique:
  assumes "tableOk h table" and "(p, i) \<in> set table" and "(q, i) \<in> set table"
  shows "p = q"
proof -
  from assms(1) have "inj_on snd (set table)" by (simp add: tableOk_def distinct_map)
  from inj_onD [OF this _ assms(2,3)] show ?thesis by simp
qed

lemma allocateAll_injective:
  assumes "allocateAll h [] ps = Inr table" and "p \<in> set ps" and "q \<in> set ps"
    and "makeId h p = makeId h q"
  shows "p = q"
proof -
  from allocateAll_ok [OF assms(1) tableOk_Nil]
  have ok: "tableOk h table" and f: "fst ` set table = set ps" by auto
  from tableOk_lookup [OF ok] f assms(2,3)
  have "(p, makeId h p) \<in> set table" "(q, makeId h q) \<in> set table"
    by (auto intro: map_of_SomeD)
  with assms(4) tableOk_unique [OF ok] show ?thesis by metis
qed




text \<open>
  With a suffix of fixed length, two ids are equal exactly when both the prefixes and the
  hashes are.
\<close>

lemma makeId_eq_iff:
  assumes "fixedLength h"
  shows "(makeId h p = makeId h q) = (humanPrefix p = humanPrefix q \<and> h p = h q)"
proof -
  from assms have "length (h p) = length (h q)" by (simp add: fixedLength_def)
  then show ?thesis by (simp add: makeId_def)
qed

lemma finite_fixed_length_strings: "finite {s :: string. length s = n}"
  using finite_lists_length_eq [of "UNIV :: char set" n] by simp

lemma humanPrefix_dashes: "humanPrefix [replicate k (CHR ''-''), x] = filter validIdChar x"
  by (simp add: humanPrefix_def validIdChar_def)

text \<open>
  There are infinitely many parents whose names consist of dashes, all with the empty
  prefix, and only finitely many suffixes: whatever the hash function is, two of these
  parents give the child \<open>X\<close> the same id.
\<close>

lemma every_hash_collides:
  assumes "fixedLength h"
  shows "\<exists>parent parent' x. parent \<noteq> parent' \<and> makeId h (parent @ [x]) = makeId h (parent' @ [x])"
proof -
  let ?f = "\<lambda>k :: nat. h [replicate k (CHR ''-''), ''X'']"
  have "range ?f \<subseteq> {s. length s = hashLength}"
    using assms by (auto simp: fixedLength_def)
  then have "finite (range ?f)"
    using finite_fixed_length_strings by (rule finite_subset)
  then have "\<not> inj ?f"
    using finite_imageD infinite_UNIV_nat by blast
  then obtain k k' where kk: "k \<noteq> k'" and eq: "?f k = ?f k'"
    by (auto simp: inj_on_def)
  have "[replicate k (CHR ''-'')] \<noteq> [replicate k' (CHR ''-'')]"
    using kk by (metis length_replicate list.inject)
  moreover have "makeId h ([replicate k (CHR ''-'')] @ [''X''])
      = makeId h ([replicate k' (CHR ''-'')] @ [''X''])"
    using eq by (simp add: makeId_def humanPrefix_dashes)
  ultimately show ?thesis by blast
qed

lemma fixedLength_expectedHash: "fixedLength expectedHash"
  unfolding fixedLength_def
proof
  fix p
  show "length (expectedHash p) = hashLength"
  proof (cases "map_of expectedHashes p")
    case None
    then show ?thesis by (simp add: expectedHash_def hashLength_def)
  next
    case (Some s)
    then have "(p, s) \<in> set expectedHashes" by (rule map_of_SomeD)
    then have "length s = 8" by (auto simp: expectedHashes_def)
    with Some show ?thesis by (simp add: expectedHash_def hashLength_def)
  qed
qed


section \<open>Lemmas: the assembler\<close>





text \<open>Adding the same edge twice is a no-op.\<close>

lemma addDependency_idempotent: "addDependency (addDependency g f t) f t = addDependency g f t"
  by (simp add: addDependency_def Let_def declareNode_def)




















section \<open>Lemmas: resolution\<close>

lemma subvalues_self: "v \<in> set (subvalues v)"
  by (cases v) simp_all

lemma subterms_self: "j \<in> set (subterms j)"
  by (cases j) simp_all

text \<open>
  Resolution is compositional: the resolved form of every value inside a value occurs
  inside the resolved document.
\<close>

lemma resolve_subvalue:
  "u \<in> set (subvalues v) \<Longrightarrow> resolve rt u \<in> set (subterms (resolve rt v))"
proof (induction rt v rule: resolve.induct)
  case (4 rt t)
  then show ?case by (simp add: subterms_self)
next
  case (5 rt parts)
  then show ?case by (auto simp: fnJoin_def)
next
  case (6 rt d i v)
  then show ?case by (auto simp: fnSelect_def fnSplit_def)
next
  case (7 rt vs)
  then show ?case by auto
next
  case (8 rt kvs)
  then show ?case by (auto simp: case_prod_beta) (use "8.IH" in force)
qed simp_all


section \<open>Lemmas: the expected template\<close>


































section \<open>Theorems: lowering of deferred strings\<close>

text \<open>
  C3. The resolved document expresses a string concatenation as a join expression over a
  delimiter (the empty string) and the list of the resolved parts, in their original
  order; it is never a plain string. A literal part stays the literal, a Token part is
  its resolved expression, and a part may itself be a lowered expression. This holds
  wherever the concatenation stands inside a property value: the resolved value contains
  the join expression. For the example of the spec, the literal \<open>a/\<close>, a deferred value
  and the literal \<open>b\<close> give the join of exactly these three parts in this order.
\<close>

theorem concatenation_lowered_to_join:
  "resolve rt (PConcat parts)
     = JObject [(''Fn::Join'', JArray [JString '''', JArray (map (resolve rt) parts)])]
   \<and> (\<forall>s. resolve rt (PConcat parts) \<noteq> JString s)
   \<and> resolve rt (PString s) = JString s
   \<and> resolve rt (PToken t) = rt t
   \<and> (PConcat parts \<in> set (subvalues v) \<longrightarrow>
        fnJoin '''' (map (resolve rt) parts) \<in> set (subterms (resolve rt v)))
   \<and> resolve rt (PConcat [PString ''a/'', PToken x, PString ''b''])
       = fnJoin '''' [JString ''a/'', rt x, JString ''b'']"
  using resolve_subvalue [of "PConcat parts" v rt] by (simp add: fnJoin_def)

theorem concatenation_lowered_to_join_witness:
  "PConcat [PToken (attToken [''Destination''] ''Arn''), PString ''/*'']
     \<in> set (subvalues policyDocument)
   \<and> resolve (\<lambda>t. resolver t (makeId expectedHash))
       (PConcat [PToken (attToken [''Destination''] ''Arn''), PString ''/*''])
     = expectedPolicyResource
   \<and> expectedPolicyResource
       \<in> set (subterms (resolve (\<lambda>t. resolver t (makeId expectedHash)) policyDocument))"
proof -
  have m: "PConcat [PToken (attToken [''Destination''] ''Arn''), PString ''/*'']
             \<in> set (subvalues policyDocument)"
    by (simp add: policyDocument_def)
  have r: "fnJoin '''' (map (resolve (\<lambda>t. resolver t (makeId expectedHash)))
             [PToken (attToken [''Destination''] ''Arn''), PString ''/*''])
           = expectedPolicyResource"
    by (simp add: expectedPolicyResource_def fnJoin_def attToken_def makeId_def
        humanPrefix_def validIdChar_def expectedHash_def expectedHashes_def)
  from concatenation_lowered_to_join
    [of "\<lambda>t. resolver t (makeId expectedHash)"
        "[PToken (attToken [''Destination''] ''Arn''), PString ''/*'']" _ _ policyDocument]
    m
  have "fnJoin '''' (map (resolve (\<lambda>t. resolver t (makeId expectedHash)))
             [PToken (attToken [''Destination''] ''Arn''), PString ''/*''])
          \<in> set (subterms (resolve (\<lambda>t. resolver t (makeId expectedHash)) policyDocument))"
    by blast
  with m r show ?thesis by (simp add: fnJoin_def)
qed

text \<open>
  C4. The resolved document expresses component \<open>i\<close> of a composite deferred string as a
  selection by the index \<open>i\<close> from the split of the resolved value at the delimiter; it is
  never a plain string, so no component is computed at synthesis. This holds wherever
  the component stands inside a property value: the resolved value contains the
  expression. The components of a value are these expressions for the indices in turn.
\<close>

theorem split_component_lowered:
  "resolve rt (PSelectSplit d i u)
     = JObject [(''Fn::Select'', JArray
         [JNumber (int i), JObject [(''Fn::Split'', JArray [JString d, resolve rt u])]])]
   \<and> (\<forall>s. resolve rt (PSelectSplit d i u) \<noteq> JString s)
   \<and> (PSelectSplit d i u \<in> set (subvalues v) \<longrightarrow>
        fnSelect i (fnSplit d (resolve rt u)) \<in> set (subterms (resolve rt v)))
   \<and> map (resolve rt) (splitComponents d n u)
       = map (\<lambda>i. fnSelect i (fnSplit d (resolve rt u))) [0..<n]"
  using resolve_subvalue [of "PSelectSplit d i u" v rt]
  by (simp add: fnSelect_def fnSplit_def splitComponents_def)

theorem split_component_lowered_witness:
  "PSelectSplit ''||'' 1 (PToken (refToken [''DeployMe'', ''Asset'', ''S3VersionKey'']))
     \<in> set (subvalues sourceObjectKey)
   \<and> resolve (\<lambda>t. resolver t (makeId expectedHash)) sourceObjectKey = expectedSourceObjectKey
   \<and> JObject
         [(''Fn::Select'', JArray
             [JNumber 1,
              JObject
                [(''Fn::Split'', JArray
                    [JString ''||'',
                     JObject [(''Ref'', JString ''DeployMeAssetS3VersionKey5A12D51F'')]])]])]
       \<in> set (subterms expectedSourceObjectKey)"
proof -
  have u: "[0..<2] = [0, Suc 0]"
    by (simp add: upt_rec)
  have m: "PSelectSplit ''||'' 1 (PToken (refToken [''DeployMe'', ''Asset'', ''S3VersionKey'']))
             \<in> set (subvalues sourceObjectKey)"
    by (simp add: sourceObjectKey_def splitComponents_def u)
  have r: "resolve (\<lambda>t. resolver t (makeId expectedHash)) sourceObjectKey
             = expectedSourceObjectKey"
    by (simp add: sourceObjectKey_def expectedSourceObjectKey_def splitComponents_def u
        fnJoin_def fnSelect_def fnSplit_def refToken_def makeId_def humanPrefix_def
        validIdChar_def expectedHash_def expectedHashes_def)
  have k: "resolve (\<lambda>t. resolver t (makeId expectedHash))
             (PToken (refToken [''DeployMe'', ''Asset'', ''S3VersionKey'']))
           = JObject [(''Ref'', JString ''DeployMeAssetS3VersionKey5A12D51F'')]"
    by (simp add: refToken_def makeId_def humanPrefix_def validIdChar_def expectedHash_def
        expectedHashes_def)
  from split_component_lowered
    [of "\<lambda>t. resolver t (makeId expectedHash)" "''||''" 1
        "PToken (refToken [''DeployMe'', ''Asset'', ''S3VersionKey''])" sourceObjectKey]
    m
  have "fnSelect 1 (fnSplit ''||'' (resolve (\<lambda>t. resolver t (makeId expectedHash))
          (PToken (refToken [''DeployMe'', ''Asset'', ''S3VersionKey'']))))
        \<in> set (subterms (resolve (\<lambda>t. resolver t (makeId expectedHash)) sourceObjectKey))"
    by blast
  then have "JObject
         [(''Fn::Select'', JArray
             [JNumber 1,
              JObject
                [(''Fn::Split'', JArray
                    [JString ''||'',
                     JObject [(''Ref'', JString ''DeployMeAssetS3VersionKey5A12D51F'')]])]])]
       \<in> set (subterms expectedSourceObjectKey)"
    unfolding r k by (simp add: fnSelect_def fnSplit_def)
  with m r show ?thesis by blast
qed

section \<open>Theorems: ordering annotations\<close>




section \<open>Theorems: logical ids\<close>

text \<open>
  C7, as stated, fails in its last part: whatever the fixed-length hash is, a node can be
  moved to a different parent and keep its id. No hash function makes every move change
  the id.
\<close>

theorem move_can_keep_id:
  "\<not> (\<exists>h. fixedLength h \<and>
        (\<forall>parent parent' x. parent \<noteq> parent' \<longrightarrow>
           makeId h (parent @ [x]) \<noteq> makeId h (parent' @ [x])))"
  using every_hash_collides by blast

text \<open>
  C7, amended. The logical id is a function of the full path of the node alone, the
  sanitised prefix followed by the fixed-length hash of the full path: allocating a path
  again returns the memoized id, and every id in the table of a run is that of its path.
  In one run no two distinct paths receive the same id, and two distinct paths whose ids
  collide abort the run with the fatal \<open>AllocationError\<close>. Two paths have the same id
  exactly when their prefixes and their hashes both coincide; so moving a node to a
  different parent changes its id whenever the hashes of the old and the new full path
  differ.
\<close>

theorem logical_id_allocation:
  assumes "fixedLength h"
  shows "(allocate h t0 p = Inr (i, t1) \<longrightarrow> allocate h t1 p = Inr (i, t1))
       \<and> (allocateAll h [] ps = Inr table \<longrightarrow>
            (\<forall>q \<in> set ps. map_of table q = Some (makeId h q))
          \<and> (\<forall>q r j. (q, j) \<in> set table \<and> (r, j) \<in> set table \<longrightarrow> q = r))
       \<and> (q \<in> set ps \<and> r \<in> set ps \<and> q \<noteq> r \<and> makeId h q = makeId h r \<longrightarrow>
            (\<exists>c j. allocateAll h [] ps = Inl (AllocationError c j)))
       \<and> ((makeId h q = makeId h r) = (humanPrefix q = humanPrefix r \<and> h q = h r))
       \<and> (h (parent @ [x]) \<noteq> h (parent' @ [x]) \<longrightarrow>
            makeId h (parent @ [x]) \<noteq> makeId h (parent' @ [x]))"
proof (intro conjI impI)
  assume "allocate h t0 p = Inr (i, t1)"
  then show "allocate h t1 p = Inr (i, t1)" by (rule allocate_memo)
next
  assume a: "allocateAll h [] ps = Inr table"
  from allocateAll_ok [OF a tableOk_Nil]
  have ok: "tableOk h table" and f: "fst ` set table = set ps" by auto
  show "\<forall>q \<in> set ps. map_of table q = Some (makeId h q)"
    using tableOk_lookup [OF ok] f by simp
  show "\<forall>q r j. (q, j) \<in> set table \<and> (r, j) \<in> set table \<longrightarrow> q = r"
    using tableOk_unique [OF ok] by blast
next
  assume c: "q \<in> set ps \<and> r \<in> set ps \<and> q \<noteq> r \<and> makeId h q = makeId h r"
  show "\<exists>c j. allocateAll h [] ps = Inl (AllocationError c j)"
  proof (cases "allocateAll h [] ps")
    case (Inl e)
    with allocateAll_error [OF Inl] show ?thesis by auto
  next
    case (Inr table)
    from allocateAll_injective [OF Inr] c show ?thesis by blast
  qed
next
  show "(makeId h q = makeId h r) = (humanPrefix q = humanPrefix r \<and> h q = h r)"
    by (rule makeId_eq_iff [OF assms])
next
  assume "h (parent @ [x]) \<noteq> h (parent' @ [x])"
  then show "makeId h (parent @ [x]) \<noteq> makeId h (parent' @ [x])"
    by (simp add: makeId_eq_iff [OF assms])
qed

theorem logical_id_allocation_witness:
  "fixedLength expectedHash
   \<and> allocate expectedHash [] [''Destination'']
       = Inr (''Destination920A3C57'', [([''Destination''], ''Destination920A3C57'')])
   \<and> allocate expectedHash [([''Destination''], ''Destination920A3C57'')] [''Destination'']
       = Inr (''Destination920A3C57'', [([''Destination''], ''Destination920A3C57'')])
   \<and> allocateAll expectedHash [] [ [''Destination''], [''Destination'', ''Policy''] ]
       = Inr [([''Destination''], ''Destination920A3C57''),
              ([''Destination'', ''Policy''], ''DestinationPolicy7982387E'')]
   \<and> makeId expectedHash [''Destination'', ''Policy''] = ''DestinationPolicy7982387E''
   \<and> [''-''] \<noteq> [''--''] \<and> makeId expectedHash [''-''] = makeId expectedHash [''--'']
   \<and> (\<exists>c j. allocateAll expectedHash [] [ [''-''], [''--''] ] = Inl (AllocationError c j))
   \<and> expectedHash ([''Destination''] @ [''Policy'']) \<noteq> expectedHash ([''Other''] @ [''Policy''])
   \<and> makeId expectedHash ([''Destination''] @ [''Policy''])
       \<noteq> makeId expectedHash ([''Other''] @ [''Policy''])"
proof -
  note f = fixedLength_expectedHash
  note memo = logical_id_allocation [OF f, THEN conjunct1, THEN mp]
  note run = logical_id_allocation [OF f, THEN conjunct2, THEN conjunct1, THEN mp]
  note collision =
    logical_id_allocation [OF f, THEN conjunct2, THEN conjunct2, THEN conjunct1, THEN mp]
  note move = logical_id_allocation
    [OF f, THEN conjunct2, THEN conjunct2, THEN conjunct2, THEN conjunct2, THEN mp]
  have a0: "allocate expectedHash [] [''Destination'']
       = Inr (''Destination920A3C57'', [([''Destination''], ''Destination920A3C57'')])"
    by (simp add: allocate_def makeId_def humanPrefix_def validIdChar_def expectedHash_def
        expectedHashes_def Let_def)
  have a1: "allocate expectedHash [([''Destination''], ''Destination920A3C57'')] [''Destination'']
       = Inr (''Destination920A3C57'', [([''Destination''], ''Destination920A3C57'')])"
    by (rule memo [OF a0])
  have a: "allocateAll expectedHash [] [ [''Destination''], [''Destination'', ''Policy''] ]
       = Inr [([''Destination''], ''Destination920A3C57''),
              ([''Destination'', ''Policy''], ''DestinationPolicy7982387E'')]"
    by (simp add: allocate_def makeId_def humanPrefix_def validIdChar_def expectedHash_def
        expectedHashes_def Let_def)
  from run [OF a]
  have k: "makeId expectedHash [''Destination'', ''Policy''] = ''DestinationPolicy7982387E''"
    by simp
  have d: "[''-''] \<noteq> [''--'']"
    by simp
  have c: "makeId expectedHash [''-''] = makeId expectedHash [''--'']"
    by (simp add: makeId_def humanPrefix_def validIdChar_def expectedHash_def expectedHashes_def
        handlerName_def)
  have "[''-''] \<in> set [ [''-''], [''--''] ] \<and> [''--''] \<in> set [ [''-''], [''--''] ]
      \<and> [''-''] \<noteq> [''--''] \<and> makeId expectedHash [''-''] = makeId expectedHash [''--'']"
    using c by simp
  then have x: "\<exists>c j. allocateAll expectedHash [] [ [''-''], [''--''] ]
      = Inl (AllocationError c j)"
    by (rule collision)
  have n: "expectedHash ([''Destination''] @ [''Policy''])
             \<noteq> expectedHash ([''Other''] @ [''Policy''])"
    by (simp add: expectedHash_def expectedHashes_def)
  have g: "makeId expectedHash ([''Destination''] @ [''Policy''])
          \<noteq> makeId expectedHash ([''Other''] @ [''Policy''])"
    by (rule move [OF n])
  show ?thesis
    by (intro conjI) (rule f a0 a1 a k d c x n g)+
qed

section \<open>Theorems: cycle rejection and the order of the records\<close>



end
